theory Spec2Isabelle
  imports Complex_Main "HOL-Library.Sublist"
begin

section \<open>Conventions of the embedding\<close>

text \<open>
  The program is the pair of Python classes that \<^verbatim>\<open>setup.py\<close> writes out:
  \<^verbatim>\<open>IntentClassifier\<close> (lines 189-290) and \<^verbatim>\<open>RAGSystem\<close> (lines 310-420).

  \<^item> A Python \<^verbatim>\<open>str\<close> is a \<^typ>\<open>string\<close>; a character is a code point below 256.
  \<^item> A Python \<^verbatim>\<open>float\<close> is a \<^typ>\<open>rat\<close>. The scores of the classifier are sums, and
    a comparison of two sums depends on how each addition was rounded, so every
    operation on them rounds to the nearest double. The score of a retrieval result is
    one quotient of two set sizes and is kept exact: the double the code computes is the
    nearest one to it, and rounding keeps the order. The literals \<^verbatim>\<open>0.1\<close>, \<^verbatim>\<open>0.3\<close>,
    \<^verbatim>\<open>0.5\<close> and \<^verbatim>\<open>0.7\<close> are the fractions they denote; no double lies between
    \<^verbatim>\<open>0.3\<close> or \<^verbatim>\<open>0.7\<close> and the nearest double, and the route is the same on both
    sides of \<^verbatim>\<open>0.3\<close>, so every comparison that decides a route comes out as in the
    code.
  \<^item> A \<^verbatim>\<open>dict\<close> is an association list in insertion order, which is the order
    in which Python iterates over it.
  \<^item> An exception is a value: a function that can raise returns \<open>py_error + 'a\<close>.
  \<^item> The file system is an argument: the scan of a directory for \<^verbatim>\<open>index_documents\<close>,
    the files and what can be written for \<^verbatim>\<open>save_model\<close> and
    \<^verbatim>\<open>load_or_create_model\<close>. So is the \<^verbatim>\<open>json\<close> module: what \<^verbatim>\<open>json.dump\<close> writes
    and what \<^verbatim>\<open>json.load\<close> returns.
\<close>

datatype py_error = ZeroDivisionError | IndexError | OSError | JSONDecodeError

section \<open>Strings\<close>

text \<open>
  \<^verbatim>\<open>keyword in text_lower\<close>: the keyword occurs as a contiguous block of the text.
\<close>

fun contains :: "string \<Rightarrow> string \<Rightarrow> bool" where
  "contains [] kw = (kw = [])"
| "contains (c # cs) kw = (prefix kw (c # cs) \<or> contains cs kw)"

text \<open>
  \<^verbatim>\<open>str.lower()\<close> on code points below 256: the ASCII capitals and the Latin-1 capitals
  \<^verbatim>\<open>0xC0..0xDE\<close> (without the multiplication sign \<^verbatim>\<open>0xD7\<close>) move up by 32.
\<close>

definition lower_char :: "char \<Rightarrow> char" where
  "lower_char c =
     (let n = of_char c :: nat
      in if (65 \<le> n \<and> n \<le> 90) \<or> (192 \<le> n \<and> n \<le> 222 \<and> n \<noteq> 215)
         then char_of (n + 32) else c)"

definition lower :: "string \<Rightarrow> string" where
  "lower s = map lower_char s"

section \<open>Floating-point arithmetic\<close>

text \<open>
  A Python \<^verbatim>\<open>float\<close> is an IEEE 754 double. It is modelled by the rational number it
  denotes, and the result of an addition or a division is the exact result rounded to
  the nearest double, ties to the even significand: \<open>round_double\<close>. A double has a
  significand of 53 bits; below \<^verbatim>\<open>2^-1022\<close> the doubles are \<^verbatim>\<open>2^-1074\<close> apart. Overflow to
  infinity is outside the model; the scores of the classifier are sums of reciprocals of
  list lengths and stay far below it.
\<close>

text \<open>The number of binary digits of a positive integer.\<close>

function bit_length :: "int \<Rightarrow> nat" where
  "bit_length n = (if n \<le> 0 then 0 else Suc (bit_length (n div 2)))"
  by pat_completeness auto
termination
  by (relation "measure nat") auto

definition pow2 :: "int \<Rightarrow> rat" where
  "pow2 e = (if 0 \<le> e then 2 ^ nat e else 1 / 2 ^ nat (- e))"

text \<open>The exponent \<open>e\<close> with \<open>pow2 e \<le> x < pow2 (e + 1)\<close>, for a positive \<open>x\<close>.\<close>

definition floor_log2 :: "rat \<Rightarrow> int" where
  "floor_log2 x =
     (let (p, q) = quotient_of x;
          e0 = int (bit_length p) - int (bit_length q)
      in if pow2 e0 \<le> x then e0 else e0 - 1)"

definition round_half_even :: "rat \<Rightarrow> int" where
  "round_half_even m =
     (let f = \<lfloor>m\<rfloor>; d = m - of_int f
      in if d < 1 / 2 then f
         else if d > 1 / 2 then f + 1
         else if even f then f else f + 1)"

definition round_double :: "rat \<Rightarrow> rat" where
  "round_double x =
     (if x = 0 then 0
      else (let e = floor_log2 \<bar>x\<bar>;
                ulp = pow2 (max (e - 52) (- 1074))
            in of_int (round_half_even (x / ulp)) * ulp))"

section \<open>The intent classifier\<close>

type_synonym intent_table = "(string \<times> string list) list"

record ClassificationResult =
  intent :: string
  confidence :: rat
  route :: string

text \<open>\<^verbatim>\<open>IntentClassifier._determine_route\<close>, lines 256-265.\<close>

definition simple_intents :: "string list" where
  "simple_intents =
     [''greeting'', ''goodbye'', ''help'', ''simple_troubleshooting'', ''safety_query'']"

definition determine_route :: "string \<Rightarrow> rat \<Rightarrow> string \<Rightarrow> string" where
  "determine_route i c t =
     (if i \<in> set simple_intents \<and> c > 1 / 2 then ''rule_based''
      else if c < 3 / 10 then ''rule_based''
      else (if c > 7 / 10 then ''llm'' else ''rule_based''))"

text \<open>
  \<^verbatim>\<open>scores = defaultdict(float)\<close> with \<^verbatim>\<open>scores[intent] += x\<close>: a key that is present
  keeps its place and has \<open>x\<close> added, a missing key is appended with \<open>0.0 + x\<close>.
  The sum is a double.
\<close>

fun add_score :: "(string \<times> rat) list \<Rightarrow> string \<Rightarrow> rat \<Rightarrow> (string \<times> rat) list" where
  "add_score [] i x = [(i, round_double (0 + x))]"
| "add_score ((j, v) # sc) i x =
     (if j = i then (j, round_double (v + x)) # sc else (j, v) # add_score sc i x)"

text \<open>
  The inner loop of \<^verbatim>\<open>classify\<close> (lines 232-234) for one intent; \<open>n\<close> is
  \<^verbatim>\<open>len(keywords)\<close> of the whole list, which is at least 1 whenever the body runs.
  \<^verbatim>\<open>1.0 / len(keywords)\<close> is the double nearest to the quotient.
\<close>

fun score_keywords ::
  "string \<Rightarrow> string \<Rightarrow> nat \<Rightarrow> string list \<Rightarrow> (string \<times> rat) list \<Rightarrow> (string \<times> rat) list"
where
  "score_keywords txt i n [] sc = sc"
| "score_keywords txt i n (kw # kws) sc =
     score_keywords txt i n kws
       (if contains txt kw then add_score sc i (round_double (1 / of_nat n)) else sc)"

text \<open>The outer loop (line 231) over \<^verbatim>\<open>self.intent_keywords.items()\<close>.\<close>

fun score_intents ::
  "string \<Rightarrow> intent_table \<Rightarrow> (string \<times> rat) list \<Rightarrow> (string \<times> rat) list"
where
  "score_intents txt [] sc = sc"
| "score_intents txt ((i, kws) # tab) sc =
     score_intents txt tab (score_keywords txt i (length kws) kws sc)"

text \<open>
  \<^verbatim>\<open>max(scores, key=scores.get)\<close> on a non-empty dict: the first key, in iteration
  order, whose value no other value exceeds. \<open>b\<close> is the best entry so far.
\<close>

fun max_entry :: "string \<times> rat \<Rightarrow> (string \<times> rat) list \<Rightarrow> string \<times> rat" where
  "max_entry b [] = b"
| "max_entry b (e # es) = (if snd b < snd e then max_entry e es else max_entry b es)"

text \<open>\<^verbatim>\<open>IntentClassifier.classify\<close>, lines 225-254.\<close>

definition classify :: "intent_table \<Rightarrow> string \<Rightarrow> ClassificationResult" where
  "classify intent_keywords txt =
     (let text_lower = lower txt;
          scores = score_intents text_lower intent_keywords []
      in case scores of
           [] \<Rightarrow> \<lparr>intent = ''unclear'', confidence = 1 / 10, route = ''rule_based''\<rparr>
         | e # es \<Rightarrow>
             (let best = max_entry e es;
                  best_intent = fst best;
                  conf = min (snd best) 1
              in \<lparr>intent = best_intent, confidence = conf,
                   route = determine_route best_intent conf text_lower\<rparr>))"

section \<open>The retrieval system\<close>

text \<open>
  \<^verbatim>\<open>str.split()\<close> without arguments: the maximal runs of characters that are not
  whitespace. Below 256 Python's whitespace is \<^verbatim>\<open>0x09..0x0D\<close>, \<^verbatim>\<open>0x1C..0x20\<close>,
  \<^verbatim>\<open>0x85\<close> and \<^verbatim>\<open>0xA0\<close>. \<open>cur\<close> is the word being read, last character first.
\<close>

definition is_space :: "char \<Rightarrow> bool" where
  "is_space c =
     (let n = of_char c :: nat
      in (9 \<le> n \<and> n \<le> 13) \<or> (28 \<le> n \<and> n \<le> 32) \<or> n = 133 \<or> n = 160)"

fun split_from :: "string \<Rightarrow> string \<Rightarrow> string list" where
  "split_from cur [] = (if cur = [] then [] else [rev cur])"
| "split_from cur (c # cs) =
     (if is_space c
      then (if cur = [] then split_from [] cs else rev cur # split_from [] cs)
      else split_from (c # cur) cs)"

definition split_ws :: "string \<Rightarrow> string list" where
  "split_ws s = split_from [] s"

record Metadata =
  filename :: string
  source :: string

text \<open>
  A retrieval result; its key \<^verbatim>\<open>'text'\<close> is the field \<open>doc_text\<close>.
\<close>

record RetrievalResult =
  doc_text :: string
  metadata :: Metadata
  similarity_score :: rat
  rank :: nat

text \<open>
  The object state: \<^verbatim>\<open>self.documents_path\<close>, \<^verbatim>\<open>self.documents\<close> and
  \<^verbatim>\<open>self.metadata\<close>, the last one named \<open>metadata_list\<close> here because
  \<open>metadata\<close> is the field of a retrieval result.
\<close>

record RAGSystem =
  documents_path :: string
  documents :: "string list"
  metadata_list :: "Metadata list"

text \<open>True division of two lengths, and \<^verbatim>\<open>xs[i]\<close> for the index of \<^verbatim>\<open>enumerate\<close>.\<close>

definition py_div :: "nat \<Rightarrow> nat \<Rightarrow> py_error + rat" where
  "py_div a b = (if b = 0 then Inl ZeroDivisionError else Inr (of_nat a / of_nat b))"

definition py_index :: "'a list \<Rightarrow> nat \<Rightarrow> py_error + 'a" where
  "py_index xs i = (if i < length xs then Inr (xs ! i) else Inl IndexError)"

text \<open>
  \<^verbatim>\<open>xs[:k]\<close>: the first \<open>k\<close> elements, and for a negative \<open>k\<close> all but the last
  \<open>-k\<close>.
\<close>

definition slice_to :: "int \<Rightarrow> 'a list \<Rightarrow> 'a list" where
  "slice_to k xs = (if 0 \<le> k then take (nat k) xs else take (length xs - nat (- k)) xs)"

definition word_set :: "string \<Rightarrow> string set" where
  "word_set s = set (split_ws (lower s))"

text \<open>
  The loop of \<^verbatim>\<open>retrieve_context\<close> (lines 384-394): \<open>i\<close> is the index of
  \<^verbatim>\<open>enumerate\<close>, \<open>acc\<close> is \<^verbatim>\<open>scored_docs\<close>. The division is evaluated before the
  dict literal that reads \<^verbatim>\<open>self.metadata[i]\<close>.
\<close>

fun score_docs ::
  "string set \<Rightarrow> Metadata list \<Rightarrow> nat \<Rightarrow> string list \<Rightarrow> RetrievalResult list
   \<Rightarrow> py_error + RetrievalResult list"
where
  "score_docs qw md i [] acc = Inr acc"
| "score_docs qw md i (doc # docs) acc =
     (let doc_words = word_set doc;
          overlap = card (qw \<inter> doc_words)
      in if overlap > 0
         then (case py_div overlap (card (qw \<union> doc_words)) of
                 Inl e \<Rightarrow> Inl e
               | Inr score \<Rightarrow>
                   (case py_index md i of
                      Inl e \<Rightarrow> Inl e
                    | Inr m \<Rightarrow>
                        score_docs qw md (i + 1) docs
                          (acc @ [\<lparr>doc_text = doc, metadata = m, similarity_score = score,
                                   rank = length acc + 1\<rparr>])))
         else score_docs qw md (i + 1) docs acc)"

text \<open>
  \<^verbatim>\<open>RAGSystem.retrieve_context\<close>, lines 376-398. \<^verbatim>\<open>list.sort(key=..., reverse=True)\<close>
  is a stable sort by descending key; the result of a stable sort is unique, and it is
  the one of the insertion sort \<^const>\<open>sort_key\<close> on the negated key.
\<close>

definition retrieve_context ::
  "RAGSystem \<Rightarrow> string \<Rightarrow> int \<Rightarrow> py_error + RetrievalResult list"
where
  "retrieve_context rag query k =
     (if documents rag = [] then Inr []
      else case score_docs (word_set query) (metadata_list rag) 0 (documents rag) [] of
             Inl e \<Rightarrow> Inl e
           | Inr scored_docs \<Rightarrow>
               Inr (slice_to k (sort_key (\<lambda>x. - similarity_score x) scored_docs)))"

text \<open>\<^verbatim>\<open>sep.join(parts)\<close>.\<close>

fun join :: "string \<Rightarrow> string list \<Rightarrow> string" where
  "join sep [] = []"
| "join sep [p] = p"
| "join sep (p # p' # ps) = p @ sep @ join sep (p' # ps)"

text \<open>\<^verbatim>\<open>RAGSystem.get_context_string\<close>, lines 400-411.\<close>

definition context_part :: "RetrievalResult \<Rightarrow> string" where
  "context_part r = ''Source: '' @ filename (metadata r) @ [CHR 0x0A] @ doc_text r"

definition separator :: string where
  "separator = [CHR 0x0A, CHR 0x0A] @ ''---'' @ [CHR 0x0A, CHR 0x0A]"

definition get_context_string :: "RAGSystem \<Rightarrow> string \<Rightarrow> int \<Rightarrow> py_error + string" where
  "get_context_string rag query k =
     (case retrieve_context rag query k of
        Inl e \<Rightarrow> Inl e
      | Inr results \<Rightarrow>
          if results = [] then Inr ''''
          else Inr (join separator (map context_part results)))"

text \<open>
  A store as \<^verbatim>\<open>index_documents\<close> builds it has one metadata entry for each document.
\<close>

definition indexed :: "RAGSystem \<Rightarrow> bool" where
  "indexed rag = (length (metadata_list rag) = length (documents rag))"

text \<open>
  What the retrieval is described to compute: \<open>matching\<close> are the indexed documents
  that share a word with the query, in document order, each with its metadata entry;
  \<open>jaccard\<close> is the number of shared words over the number of all words of query and
  document. \<open>doc_of\<close> is the document a result stands for. \<open>scored_matches\<close> is
  the list of results for the matching documents in document order, numbered from 1.
\<close>

definition matching :: "string \<Rightarrow> RAGSystem \<Rightarrow> (string \<times> Metadata) list" where
  "matching q rag =
     filter (\<lambda>(d, m). word_set q \<inter> word_set d \<noteq> {})
       (zip (documents rag) (metadata_list rag))"

definition jaccard :: "string \<Rightarrow> string \<Rightarrow> rat" where
  "jaccard q d =
     of_nat (card (word_set q \<inter> word_set d)) / of_nat (card (word_set q \<union> word_set d))"

definition doc_of :: "RetrievalResult \<Rightarrow> string \<times> Metadata" where
  "doc_of r = (doc_text r, metadata r)"

definition result_at :: "string \<Rightarrow> nat \<times> string \<times> Metadata \<Rightarrow> RetrievalResult" where
  "result_at q = (\<lambda>(n, d, m).
     \<lparr>doc_text = d, metadata = m, similarity_score = jaccard q d, rank = n + 1\<rparr>)"

definition scored_matches :: "string \<Rightarrow> RAGSystem \<Rightarrow> RetrievalResult list" where
  "scored_matches q rag = map (result_at q) (enumerate 0 (matching q rag))"

section \<open>Indexing\<close>

text \<open>
  The directory as \<^verbatim>\<open>index_documents\<close> sees it. A file found by \<^verbatim>\<open>glob('*.txt')\<close> has a
  name (\<^verbatim>\<open>file_path.name\<close>), a path (\<^verbatim>\<open>str(file_path)\<close>) and the outcome of opening and
  reading it. The scan yields files one by one and may end with an exception, raised
  before the first file when the directory cannot be scanned at all.
\<close>

record TxtFile =
  file_name :: string
  file_path :: string
  file_read :: "py_error + string"

type_synonym scan = "TxtFile list \<times> py_error option"

text \<open>
  The body of the \<^verbatim>\<open>for\<close> loop, lines 356-367: a file that cannot be read is logged
  and skipped.
\<close>

fun index_files :: "TxtFile list \<Rightarrow> RAGSystem \<Rightarrow> RAGSystem" where
  "index_files [] rag = rag"
| "index_files (f # fs) rag =
     index_files fs
       (case file_read f of
          Inl e \<Rightarrow> rag
        | Inr content \<Rightarrow>
            rag\<lparr>documents := documents rag @ [content],
                metadata_list := metadata_list rag
                  @ [\<lparr>filename = file_name f, source = file_path f\<rparr>]\<rparr>)"

text \<open>
  \<^verbatim>\<open>RAGSystem.index_documents\<close>, lines 348-374. \<open>glob_txt\<close> is the file system: the
  scan of each directory. The two lists are emptied before the scan starts (lines
  352-353); an exception of the scan is caught by the outer handler, which returns
  \<^verbatim>\<open>False\<close>.
\<close>

definition index_documents ::
  "(string \<Rightarrow> scan) \<Rightarrow> RAGSystem \<Rightarrow> string option \<Rightarrow> bool \<times> RAGSystem"
where
  "index_documents glob_txt rag arg =
     (let path = (case arg of
                    None \<Rightarrow> documents_path rag
                  | Some p \<Rightarrow> if p = [] then documents_path rag else p);
          rag1 = rag\<lparr>documents := [], metadata_list := []\<rparr>;
          rag2 = index_files (fst (glob_txt path)) rag1
      in case snd (glob_txt path) of
           None \<Rightarrow> (True, rag2)
         | Some e \<Rightarrow> (False, rag2))"

text \<open>
  The documents a scan contributes: the files that could be read, in scan order, each
  with the metadata entry built for it.
\<close>

definition loaded :: "TxtFile list \<Rightarrow> (string \<times> Metadata) list" where
  "loaded fs =
     List.map_filter
       (\<lambda>f. case file_read f of
              Inl e \<Rightarrow> None
            | Inr content \<Rightarrow> Some (content, \<lparr>filename = file_name f, source = file_path f\<rparr>))
       fs"

definition index_path :: "RAGSystem \<Rightarrow> string option \<Rightarrow> string" where
  "index_path rag arg =
     (case arg of None \<Rightarrow> documents_path rag
      | Some p \<Rightarrow> if p = [] then documents_path rag else p)"

section \<open>Persistence of the intent table\<close>

text \<open>
  \<^verbatim>\<open>self.intent_keywords\<close> holds what the constructor, \<^verbatim>\<open>create_default_model\<close> or
  \<^verbatim>\<open>json.load\<close> put there. \<^verbatim>\<open>load_or_create_model\<close> does not look at what
  \<^verbatim>\<open>json.load\<close> returned, so the value is a table or some other JSON value; of the
  latter only the text it was read from is kept.
\<close>

datatype py_value = Table intent_table | Other string

record IntentClassifier =
  model_path :: string
  intent_keywords :: py_value

text \<open>
  The disk as the classifier sees it. \<open>files p\<close> is the content of the file at
  \<open>p\<close>, if there is one; every path that exists is a regular file that can be read.
  \<open>writable p\<close> tells whether the directories above \<open>p\<close> can be created and the
  file can be opened and written. A failure after the file was opened, which would leave
  a truncated file, is not part of the model.
\<close>

record Disk =
  files :: "string \<Rightarrow> string option"
  writable :: "string \<Rightarrow> bool"

text \<open>
  \<^verbatim>\<open>os.path.dirname\<close> of \<^verbatim>\<open>posixpath\<close>: the path up to its last slash, without the
  trailing slashes unless it consists of slashes only. It is empty exactly for a path
  without a slash.
\<close>

definition dirname :: "string \<Rightarrow> string" where
  "dirname p =
     (let head = rev (dropWhile (\<lambda>c. c \<noteq> CHR ''/'') (rev p))
      in if head \<noteq> [] \<and> \<not> list_all (\<lambda>c. c = CHR ''/'') head
         then rev (dropWhile (\<lambda>c. c = CHR ''/'') (rev head))
         else head)"

text \<open>
  \<^verbatim>\<open>IntentClassifier.save_model\<close>, lines 272-280. \<open>dumps\<close> is the text that
  \<^verbatim>\<open>json.dump(value, f, indent=2)\<close> writes. Every exception is caught and logged, so a
  failed save leaves the disk as it was and tells the caller nothing.
  \<^verbatim>\<open>os.makedirs('')\<close> raises \<^verbatim>\<open>FileNotFoundError\<close>, so a model path without a directory
  part is never written.
\<close>

definition save_model :: "(py_value \<Rightarrow> string) \<Rightarrow> Disk \<Rightarrow> IntentClassifier \<Rightarrow> Disk" where
  "save_model dumps disk self =
     (if dirname (model_path self) = [] then disk
      else if writable disk (model_path self)
      then disk\<lparr>files := (files disk)(model_path self \<mapsto> dumps (intent_keywords self))\<rparr>
      else disk)"

text \<open>\<^verbatim>\<open>IntentClassifier.create_default_model\<close>, lines 210-223.\<close>

definition default_keywords :: intent_table where
  "default_keywords =
     [(''greeting'', [''hello'', ''hi'', ''hey'', ''greetings'', ''good morning'',
                      ''good afternoon'']),
      (''goodbye'', [''bye'', ''goodbye'', ''farewell'', ''see you'', ''exit'', ''quit'']),
      (''help'', [''help'', ''assist'', ''what can you do'', ''capabilities'', ''guide'']),
      (''simple_troubleshooting'', [''motor'', ''pump'', ''not working'', ''stopped'',
                      ''problem'', ''issue'', ''broken'', ''repair'', ''fix'']),
      (''safety_query'', [''safety'', ''lockout'', ''tagout'', ''loto'', ''ppe'', ''hazard'',
                      ''emergency'']),
      (''maintenance_planning'', [''maintenance'', ''schedule'', ''service'', ''inspection'',
                      ''routine'']),
      (''equipment_specific'', [''hvac'', ''compressor'', ''valve'', ''sensor'', ''electrical'',
                      ''mechanical'']),
      (''technical_explanation'', [''how does'', ''explain'', ''why'', ''what causes'',
                      ''principle'', ''theory'']),
      (''unclear'', [''unclear'', ''don'' @ [CHR 0x27] @ ''t know'', ''not sure'',
                      ''confusing'', ''huh''])]"

definition create_default_model ::
  "(py_value \<Rightarrow> string) \<Rightarrow> Disk \<Rightarrow> IntentClassifier \<Rightarrow> Disk \<times> IntentClassifier"
where
  "create_default_model dumps disk self =
     (let self' = self\<lparr>intent_keywords := Table default_keywords\<rparr>
      in (save_model dumps disk self', self'))"

text \<open>
  \<^verbatim>\<open>IntentClassifier.load_or_create_model\<close>, lines 197-208. \<open>loads\<close> is
  \<^verbatim>\<open>json.load\<close> on the text of the file: it raises or returns a value, and the value
  is kept as it is.
\<close>

definition load_or_create_model ::
  "(py_value \<Rightarrow> string) \<Rightarrow> (string \<Rightarrow> py_error + py_value) \<Rightarrow> Disk \<Rightarrow> IntentClassifier
   \<Rightarrow> Disk \<times> IntentClassifier"
where
  "load_or_create_model dumps loads disk self =
     (case files disk (model_path self) of
        None \<Rightarrow> create_default_model dumps disk self
      | Some content \<Rightarrow>
          (case loads content of
             Inl e \<Rightarrow> create_default_model dumps disk self
           | Inr v \<Rightarrow> (disk, self\<lparr>intent_keywords := v\<rparr>)))"

section \<open>The JSON text of a table\<close>

text \<open>
  What Python's \<^verbatim>\<open>json\<close> module writes for a table and how it reads such a text back.
  The two functions of this section describe the library on tables only; the functions
  above take the library as an argument.
\<close>

subsection \<open>\<^verbatim>\<open>json.dump(obj, f, indent=2)\<close>\<close>

text \<open>
  The text that Python's encoder writes for a dict of lists of strings, with
  \<^verbatim>\<open>ensure_ascii\<close> at its default: printable ASCII characters other than the quote and
  the backslash stand for themselves, seven characters have a two-character escape, every
  other character is written as \<^verbatim>\<open>\u00xx\<close> with lowercase hexadecimal digits.
\<close>

definition hex_digit :: "nat \<Rightarrow> char" where
  "hex_digit d = char_of (if d < 10 then 48 + d else 87 + d)"

definition escape_char :: "char \<Rightarrow> string" where
  "escape_char c =
     (if c = CHR 0x22 then [CHR 0x5C, CHR 0x22]
      else if c = CHR 0x5C then [CHR 0x5C, CHR 0x5C]
      else if c = CHR 0x0A then [CHR 0x5C, CHR ''n'']
      else if c = CHR 0x0D then [CHR 0x5C, CHR ''r'']
      else if c = CHR 0x09 then [CHR 0x5C, CHR ''t'']
      else if c = CHR 0x0C then [CHR 0x5C, CHR ''f'']
      else if c = CHR 0x08 then [CHR 0x5C, CHR ''b'']
      else if 32 \<le> (of_char c :: nat) \<and> (of_char c :: nat) \<le> 126 then [c]
      else [CHR 0x5C, CHR ''u'', CHR ''0'', CHR ''0'',
            hex_digit (of_char c div 16), hex_digit (of_char c mod 16)])"

definition encode_string :: "string \<Rightarrow> string" where
  "encode_string s = CHR 0x22 # concat (map escape_char s) @ [CHR 0x22]"

text \<open>
  With \<^verbatim>\<open>indent=2\<close> every item of a non-empty container starts on a line of its own,
  indented by two spaces per nesting level; the item separator is a comma, the key
  separator a colon and a space; an empty container is written without a line break.
\<close>

definition newline_indent :: "nat \<Rightarrow> string" where
  "newline_indent level = CHR 0x0A # replicate (2 * level) CHR '' ''"

definition encode_list :: "nat \<Rightarrow> string list \<Rightarrow> string" where
  "encode_list level vs =
     (if vs = [] then ''[]''
      else ''['' @ newline_indent (level + 1)
           @ join ('','' @ newline_indent (level + 1)) (map encode_string vs)
           @ newline_indent level @ '']'')"

definition encode_item :: "nat \<Rightarrow> string \<times> string list \<Rightarrow> string" where
  "encode_item level = (\<lambda>(key, vs). encode_string key @ '': '' @ encode_list level vs)"

definition encode_dict :: "nat \<Rightarrow> intent_table \<Rightarrow> string" where
  "encode_dict level tab =
     (if tab = [] then ''{}''
      else ''{'' @ newline_indent (level + 1)
           @ join ('','' @ newline_indent (level + 1)) (map (encode_item (level + 1)) tab)
           @ newline_indent level @ ''}'')"

definition json_dump :: "intent_table \<Rightarrow> string" where
  "json_dump tab = encode_dict 0 tab"

subsection \<open>\<^verbatim>\<open>json.load(f)\<close>\<close>

text \<open>
  Python's decoder on the texts that denote a table: an object whose values are arrays
  of strings. \<open>json_load\<close> is \<open>None\<close> for every other text, whether
  \<^verbatim>\<open>json.load\<close> raises on it or returns a value that is no table.
\<close>

definition is_json_ws :: "char \<Rightarrow> bool" where
  "is_json_ws c = (c = CHR '' '' \<or> c = CHR 0x09 \<or> c = CHR 0x0A \<or> c = CHR 0x0D)"

definition skip_ws :: "string \<Rightarrow> string" where
  "skip_ws s = dropWhile is_json_ws s"

definition hex_value :: "char \<Rightarrow> nat option" where
  "hex_value c =
     (let n = of_char c :: nat
      in if 48 \<le> n \<and> n \<le> 57 then Some (n - 48)
         else if 97 \<le> n \<and> n \<le> 102 then Some (n - 87)
         else if 65 \<le> n \<and> n \<le> 70 then Some (n - 55)
         else None)"

definition hex4 :: "char \<Rightarrow> char \<Rightarrow> char \<Rightarrow> char \<Rightarrow> nat option" where
  "hex4 a b c d =
     (case (hex_value a, hex_value b, hex_value c, hex_value d) of
        (Some x, Some y, Some z, Some w) \<Rightarrow> Some (((x * 16 + y) * 16 + z) * 16 + w)
      | _ \<Rightarrow> None)"

definition unescape :: "char \<Rightarrow> char option" where
  "unescape e =
     (if e = CHR 0x22 then Some (CHR 0x22)
      else if e = CHR 0x5C then Some (CHR 0x5C)
      else if e = CHR ''/'' then Some (CHR ''/'')
      else if e = CHR ''b'' then Some (CHR 0x08)
      else if e = CHR ''f'' then Some (CHR 0x0C)
      else if e = CHR ''n'' then Some (CHR 0x0A)
      else if e = CHR ''r'' then Some (CHR 0x0D)
      else if e = CHR ''t'' then Some (CHR 0x09)
      else None)"

text \<open>
  \<^verbatim>\<open>scanstring\<close>: the text after an opening quote, up to the closing one. \<open>acc\<close> holds
  the characters read so far, last one first. A control character in the text is an
  error (the decoder is strict by default).
\<close>

fun scanstring :: "string \<Rightarrow> string \<Rightarrow> (string \<times> string) option" where
  "scanstring acc [] = None"
| "scanstring acc (c # cs) =
     (if c = CHR 0x22 then Some (rev acc, cs)
      else if c = CHR 0x5C then
        (case cs of
           [] \<Rightarrow> None
         | e # cs' \<Rightarrow>
             if e = CHR ''u'' then
               (case cs' of
                  h1 # h2 # h3 # h4 # cs'' \<Rightarrow>
                    (case hex4 h1 h2 h3 h4 of
                       None \<Rightarrow> None
                     | Some n \<Rightarrow> if n < 256 then scanstring (char_of n # acc) cs'' else None)
                | _ \<Rightarrow> None)
             else (case unescape e of
                     None \<Rightarrow> None
                   | Some d \<Rightarrow> scanstring (d # acc) cs'))
      else if (of_char c :: nat) < 32 then None
      else scanstring (c # acc) cs)"

text \<open>
  \<^verbatim>\<open>JSONArray\<close>, for an array of strings: \<open>parse_elems\<close> reads from the first element
  on and returns the elements and the text after the closing bracket.
\<close>

function parse_elems :: "string list \<Rightarrow> string \<Rightarrow> (string list \<times> string) option" where
  "parse_elems acc s =
     (case s of
        [] \<Rightarrow> None
      | c # s1 \<Rightarrow>
          if c \<noteq> CHR 0x22 then None
          else (case scanstring [] s1 of
                  None \<Rightarrow> None
                | Some (v, s2) \<Rightarrow>
                    (case skip_ws s2 of
                       [] \<Rightarrow> None
                     | d # s3 \<Rightarrow>
                         if d = CHR '']'' then Some (rev (v # acc), s3)
                         else if d = CHR '','' then parse_elems (v # acc) (skip_ws s3)
                         else None)))"
  by pat_completeness auto

definition parse_array :: "string \<Rightarrow> (string list \<times> string) option" where
  "parse_array s =
     (case s of
        [] \<Rightarrow> None
      | c # s1 \<Rightarrow>
          if c \<noteq> CHR ''['' then None
          else (case skip_ws s1 of
                  [] \<Rightarrow> None
                | d # s2 \<Rightarrow> if d = CHR '']'' then Some ([], s2) else parse_elems [] (d # s2)))"

text \<open>
  \<^verbatim>\<open>JSONObject\<close>: \<open>parse_members\<close> reads from the first key on and returns the
  key-value pairs in the order of the text, and the text after the closing brace.
\<close>

function parse_members ::
  "(string \<times> string list) list \<Rightarrow> string \<Rightarrow> ((string \<times> string list) list \<times> string) option"
where
  "parse_members acc s =
     (case s of
        [] \<Rightarrow> None
      | c # s1 \<Rightarrow>
          if c \<noteq> CHR 0x22 then None
          else (case scanstring [] s1 of
                  None \<Rightarrow> None
                | Some (key, s2) \<Rightarrow>
                    (case skip_ws s2 of
                       [] \<Rightarrow> None
                     | d # s3 \<Rightarrow>
                         if d \<noteq> CHR '':'' then None
                         else (case parse_array (skip_ws s3) of
                                 None \<Rightarrow> None
                               | Some (vs, s4) \<Rightarrow>
                                   (case skip_ws s4 of
                                      [] \<Rightarrow> None
                                    | e # s5 \<Rightarrow>
                                        if e = CHR ''}'' then Some (rev ((key, vs) # acc), s5)
                                        else if e = CHR '','' then
                                          parse_members ((key, vs) # acc) (skip_ws s5)
                                        else None)))))"
  by pat_completeness auto

text \<open>
  \<^verbatim>\<open>dict(pairs)\<close>: a key that occurs again keeps its place and takes the later value.
\<close>

fun dict_set :: "('k \<times> 'v) list \<Rightarrow> 'k \<Rightarrow> 'v \<Rightarrow> ('k \<times> 'v) list" where
  "dict_set [] k v = [(k, v)]"
| "dict_set ((k', v') # kvs) k v =
     (if k' = k then (k, v) # kvs else (k', v') # dict_set kvs k v)"

definition dict_of_pairs :: "('k \<times> 'v) list \<Rightarrow> ('k \<times> 'v) list" where
  "dict_of_pairs pairs = foldl (\<lambda>d (k, v). dict_set d k v) [] pairs"

text \<open>
  The whole text: whitespace, one object, whitespace, and nothing after it.
\<close>

definition json_load :: "string \<Rightarrow> intent_table option" where
  "json_load s =
     (case skip_ws s of
        [] \<Rightarrow> None
      | c # s1 \<Rightarrow>
          if c \<noteq> CHR ''{'' then None
          else (case skip_ws s1 of
                  [] \<Rightarrow> None
                | d # s2 \<Rightarrow>
                    (case (if d = CHR ''}'' then Some ([], s2) else parse_members [] (d # s2)) of
                       None \<Rightarrow> None
                     | Some (pairs, s3) \<Rightarrow>
                         if skip_ws s3 = [] then Some (dict_of_pairs pairs) else None)))"

section \<open>Examples\<close>

definition two_docs :: RAGSystem where
  "two_docs =
     \<lparr>documents_path = ''kb'',
      documents = [''pump seal leak'', ''Pump''],
      metadata_list = [\<lparr>filename = ''a.txt'', source = ''kb/a.txt''\<rparr>,
                       \<lparr>filename = ''b.txt'', source = ''kb/b.txt''\<rparr>]\<rparr>"

definition unreadable_dir :: "string \<Rightarrow> scan" where
  "unreadable_dir path = ([], Some OSError)"

definition interrupted_scan :: "string \<Rightarrow> scan" where
  "interrupted_scan path =
     ([\<lparr>file_name = ''c.txt'', file_path = path @ ''/c.txt'', file_read = Inr ''valve stuck''\<rparr>,
       \<lparr>file_name = ''d.txt'', file_path = path @ ''/d.txt'', file_read = Inl OSError\<rparr>],
      Some OSError)"

definition blank_disk :: Disk where
  "blank_disk = \<lparr>files = (\<lambda>p. None), writable = (\<lambda>p. True)\<rparr>"

definition odd_table :: intent_table where
  "odd_table =
     [(''greeting'', [''hello'', ''hi'']),
      (''none'', []),
      (''odd key'', [[CHR ''a'', CHR 0x22, CHR 0x5C, CHR 0x0A, CHR 0x01, CHR 0x7F, CHR 0xE9]])]"

section \<open>Routing\<close>

lemma contains_iff_sublist: "contains t kw \<longleftrightarrow> sublist kw t"
  by (induction t) (auto simp: sublist_Cons_right)

lemma simple_intents_set:
  "set simple_intents =
     {''greeting'', ''goodbye'', ''help'', ''simple_troubleshooting'', ''safety_query''}"
  by (simp add: simple_intents_def)

text \<open>
  C1. The route is \<^verbatim>\<open>rule_based\<close> for an intent of the simple set with confidence above
  0.5; otherwise \<^verbatim>\<open>rule_based\<close> for a confidence below 0.3; otherwise \<^verbatim>\<open>llm\<close> exactly
  when the confidence is above 0.7. The three comparisons are strict: at exactly 0.5 a
  simple intent does not take the first branch (it falls to the last one, which gives
  \<^verbatim>\<open>rule_based\<close>), and at exactly 0.7 the result is \<^verbatim>\<open>rule_based\<close> for every intent.
\<close>

theorem determine_route_cases:
  "determine_route i c t =
     (if i \<in> {''greeting'', ''goodbye'', ''help'', ''simple_troubleshooting'', ''safety_query''}
         \<and> c > 1 / 2 then ''rule_based''
      else if c < 3 / 10 then ''rule_based''
      else if c > 7 / 10 then ''llm'' else ''rule_based'')
   \<and> (determine_route i c t = ''llm'' \<longleftrightarrow> c > 7 / 10 \<and> i \<notin> set simple_intents)
   \<and> \<not> (i \<in> set simple_intents \<and> (1 / 2 :: rat) > 1 / 2)
   \<and> determine_route i (1 / 2) t = ''rule_based''
   \<and> determine_route i (7 / 10) t = ''rule_based''"
  unfolding determine_route_def simple_intents_set by auto

theorem determine_route_cases_witness:
  "determine_route ''maintenance_planning'' (4 / 5) ''x'' = ''llm''
   \<and> determine_route ''greeting'' (4 / 5) ''x'' = ''rule_based''
   \<and> determine_route ''maintenance_planning'' (1 / 5) ''x'' = ''rule_based''
   \<and> determine_route ''maintenance_planning'' (7 / 10) ''x'' = ''rule_based''"
  using determine_route_cases [of "''maintenance_planning''" "4 / 5" "''x''"]
        determine_route_cases [of "''greeting''" "4 / 5" "''x''"]
        determine_route_cases [of "''maintenance_planning''" "1 / 5" "''x''"]
  by (simp add: simple_intents_def)

text \<open>
  C9. The route depends on the intent and the confidence only: two calls that differ in
  the text alone return the same route.
\<close>

theorem determine_route_ignores_text:
  "determine_route i c t1 = determine_route i c t2"
  by (simp add: determine_route_def)

section \<open>Classification without a keyword hit\<close>

lemma score_keywords_no_hit:
  "\<forall>kw \<in> set kws. \<not> contains txt kw \<Longrightarrow> score_keywords txt i n kws sc = sc"
  by (induction kws arbitrary: sc) simp_all

lemma score_intents_no_hit:
  "\<forall>(i, kws) \<in> set tab. \<forall>kw \<in> set kws. \<not> contains txt kw \<Longrightarrow>
   score_intents txt tab sc = sc"
proof (induction tab arbitrary: sc)
  case Nil
  show ?case by simp
next
  case (Cons row tab)
  obtain i kws where row: "row = (i, kws)" by (cases row)
  from Cons.prems row have "\<forall>kw \<in> set kws. \<not> contains txt kw" by simp
  then have "score_keywords txt i (length kws) kws sc = sc"
    by (rule score_keywords_no_hit)
  moreover from Cons.prems have "\<forall>(i, kws) \<in> set tab. \<forall>kw \<in> set kws. \<not> contains txt kw"
    by simp
  ultimately show ?case using Cons.IH row by simp
qed

lemma classify_no_hit:
  assumes "\<forall>(i, kws) \<in> set tab. \<forall>kw \<in> set kws. \<not> contains (lower txt) kw"
  shows "classify tab txt = \<lparr>intent = ''unclear'', confidence = 1 / 10, route = ''rule_based''\<rparr>"
  using score_intents_no_hit [OF assms, of "[]"]
  by (simp add: classify_def)

text \<open>
  C3. When no keyword of any intent occurs in the lowercased text, \<^verbatim>\<open>classify\<close> returns
  the intent \<^verbatim>\<open>unclear\<close> with confidence 0.1 and route \<^verbatim>\<open>rule_based\<close>. The empty text is
  such a text for every table whose keywords are non-empty strings.
\<close>

theorem classify_unclear:
  "((\<forall>(i, kws) \<in> set tab. \<forall>kw \<in> set kws. \<not> sublist kw (lower txt)) \<longrightarrow>
      classify tab txt = \<lparr>intent = ''unclear'', confidence = 1 / 10, route = ''rule_based''\<rparr>)
   \<and> ((\<forall>(i, kws) \<in> set tab. \<forall>kw \<in> set kws. kw \<noteq> '''') \<longrightarrow>
      classify tab '''' = \<lparr>intent = ''unclear'', confidence = 1 / 10, route = ''rule_based''\<rparr>)"
proof (intro conjI impI)
  assume "\<forall>(i, kws) \<in> set tab. \<forall>kw \<in> set kws. \<not> sublist kw (lower txt)"
  then have "\<forall>(i, kws) \<in> set tab. \<forall>kw \<in> set kws. \<not> contains (lower txt) kw"
    by (simp add: contains_iff_sublist)
  then show "classify tab txt = \<lparr>intent = ''unclear'', confidence = 1 / 10, route = ''rule_based''\<rparr>"
    by (rule classify_no_hit)
next
  assume "\<forall>(i, kws) \<in> set tab. \<forall>kw \<in> set kws. kw \<noteq> ''''"
  then have "\<forall>(i, kws) \<in> set tab. \<forall>kw \<in> set kws. \<not> contains (lower '''') kw"
    by (simp add: lower_def)
  then show "classify tab '''' = \<lparr>intent = ''unclear'', confidence = 1 / 10, route = ''rule_based''\<rparr>"
    by (rule classify_no_hit)
qed

theorem classify_unclear_witness:
  "classify [(''greeting'', [''hello'', ''hi'']), (''help'', [''assist''])] ''Pump X''
       = \<lparr>intent = ''unclear'', confidence = 1 / 10, route = ''rule_based''\<rparr>
   \<and> classify [(''greeting'', [''hello'', ''hi'']), (''help'', [''assist''])] ''''
       = \<lparr>intent = ''unclear'', confidence = 1 / 10, route = ''rule_based''\<rparr>"
proof -
  let ?tab = "[(''greeting'', [''hello'', ''hi'']), (''help'', [''assist''])]"
  have h: "\<forall>(i, kws) \<in> set ?tab. \<forall>kw \<in> set kws. \<not> sublist kw (lower ''Pump X'') \<and> kw \<noteq> ''''"
    by (simp add: contains_iff_sublist [symmetric] lower_def lower_char_def)
  then have h1: "\<forall>(i, kws) \<in> set ?tab. \<forall>kw \<in> set kws. \<not> sublist kw (lower ''Pump X'')"
    and h2: "\<forall>(i, kws) \<in> set ?tab. \<forall>kw \<in> set kws. kw \<noteq> ''''"
    by simp_all
  from classify_unclear [of ?tab "''Pump X''"] h1 h2 show ?thesis
    by blast
qed

section \<open>Classification with keyword hits\<close>

text \<open>
  Three calls, with the results that Python returns. In the first, ten additions of
  the double nearest to \<^verbatim>\<open>0.1\<close> give \<^verbatim>\<open>0.9999999999999999\<close>, which is below the
  \<^verbatim>\<open>1.0\<close> of the second intent; with exact fractions the two scores would be equal and
  the first intent would win. In the second, three such additions give
  \<^verbatim>\<open>0.30000000000000004\<close>, which is not below \<^verbatim>\<open>0.3\<close>.
\<close>

lemma classify_ten_tenths:
  "classify [(''a'', [''k0'', ''k1'', ''k2'', ''k3'', ''k4'', ''k5'', ''k6'', ''k7'', ''k8'', ''k9'']),
             (''b'', [''z''])]
            ''k0 k1 k2 k3 k4 k5 k6 k7 k8 k9 z''
     = \<lparr>intent = ''b'', confidence = 1, route = ''llm''\<rparr>"
  by code_simp

lemma classify_three_tenths:
  "classify [(''a'', [''k0'', ''k1'', ''k2'', ''k3'', ''k4'', ''k5'', ''k6'', ''k7'', ''k8'', ''k9''])]
            ''k0 k1 k2''
     = \<lparr>intent = ''a'', confidence = 1351079888211149 / 4503599627370496,
         route = ''rule_based''\<rparr>"
  by code_simp

lemma classify_hello_there:
  "classify [(''greeting'', [''hello'', ''hi''])] ''hello there''
     = \<lparr>intent = ''greeting'', confidence = 1 / 2, route = ''rule_based''\<rparr>"
  by code_simp

lemma round_double_tenth: "round_double (1 / 10) = 3602879701896397 / 36028797018963968"
  by code_simp

section \<open>The scoring loop\<close>

lemma finite_word_set: "finite (word_set s)"
  by (simp add: word_set_def)

lemma overlap_pos_iff: "finite A \<Longrightarrow> 0 < card (A \<inter> B) \<longleftrightarrow> A \<inter> B \<noteq> {}"
  by (simp add: card_gt_0_iff)

lemma union_card_pos: "finite A \<Longrightarrow> finite B \<Longrightarrow> A \<inter> B \<noteq> {} \<Longrightarrow> card (A \<union> B) \<noteq> 0"
  by auto

lemma py_div_guarded:
  assumes "finite A" "finite B" "0 < card (A \<inter> B)"
  shows "py_div (card (A \<inter> B)) (card (A \<union> B))
           = Inr (of_nat (card (A \<inter> B)) / of_nat (card (A \<union> B)))"
proof -
  from assms have "A \<inter> B \<noteq> {}" by (simp add: overlap_pos_iff)
  with assms have "card (A \<union> B) \<noteq> 0" by (intro union_card_pos)
  then show ?thesis by (simp add: py_div_def)
qed

lemma score_docs_no_zero_division:
  "finite qw \<Longrightarrow> score_docs qw md i docs acc \<noteq> Inl ZeroDivisionError"
proof (induction docs arbitrary: i acc)
  case Nil
  show ?case by simp
next
  case (Cons d docs)
  show ?case
  proof (cases "0 < card (qw \<inter> word_set d)")
    case True
    with Cons.prems have dv: "py_div (card (qw \<inter> word_set d)) (card (qw \<union> word_set d))
        = Inr (of_nat (card (qw \<inter> word_set d)) / of_nat (card (qw \<union> word_set d)))"
      by (intro py_div_guarded finite_word_set)
    show ?thesis
    proof (cases "i < length md")
      case True
      with \<open>0 < card (qw \<inter> word_set d)\<close> dv Cons.IH [OF Cons.prems] show ?thesis
        by (simp add: py_index_def Let_def)
    next
      case False
      with \<open>0 < card (qw \<inter> word_set d)\<close> dv show ?thesis
        by (simp add: py_index_def Let_def)
    qed
  next
    case False
    with Cons.IH [OF Cons.prems] show ?thesis by (simp add: Let_def)
  qed
qed

text \<open>
  On a store with a metadata entry for every document the loop returns the matching
  documents in document order, each with its Jaccard score and, as rank, its 1-based
  position among the matching documents.
\<close>

lemma score_docs_closed:
  assumes "i + length docs \<le> length md"
  shows "score_docs (word_set q) md i docs acc
     = Inr (acc @ map (result_at q)
         (enumerate (length acc)
            (filter (\<lambda>(d, m). word_set q \<inter> word_set d \<noteq> {}) (zip docs (drop i md)))))"
  using assms
proof (induction docs arbitrary: i acc)
  case Nil
  show ?case by simp
next
  case (Cons d docs)
  from Cons.prems have i: "i < length md" and rest: "Suc i + length docs \<le> length md"
    by simp_all
  from i have dr: "drop i md = md ! i # drop (Suc i) md"
    by (simp add: Cons_nth_drop_Suc)
  show ?case
  proof (cases "word_set q \<inter> word_set d = {}")
    case True
    with Cons.IH [OF rest, of acc] dr show ?thesis
      by (simp add: Let_def)
  next
    case False
    then have pos: "0 < card (word_set q \<inter> word_set d)"
      by (simp add: overlap_pos_iff finite_word_set)
    then have dv: "py_div (card (word_set q \<inter> word_set d)) (card (word_set q \<union> word_set d))
        = Inr (jaccard q d)"
      unfolding jaccard_def by (intro py_div_guarded finite_word_set)
    let ?r = "\<lparr>doc_text = d, metadata = md ! i, similarity_score = jaccard q d,
               rank = length acc + 1\<rparr>"
    from Cons.IH [OF rest, of "acc @ [?r]"] pos dv i dr False show ?thesis
      by (simp add: py_index_def Let_def result_at_def)
  qed
qed

lemma retrieve_context_indexed:
  assumes "indexed rag"
  shows "retrieve_context rag q k
     = Inr (slice_to k (sort_key (\<lambda>x. - similarity_score x) (scored_matches q rag)))"
proof (cases "documents rag = []")
  case True
  then show ?thesis
    by (simp add: retrieve_context_def scored_matches_def matching_def slice_to_def)
next
  case False
  from assms have "0 + length (documents rag) \<le> length (metadata_list rag)"
    by (simp add: indexed_def)
  from score_docs_closed [OF this, of q "[]"] False show ?thesis
    by (simp add: retrieve_context_def scored_matches_def matching_def)
qed

section \<open>Retrieval\<close>

lemma slice_to_take: "\<exists>n. slice_to k xs = take n xs"
  by (auto simp: slice_to_def)

lemma slice_to_all: "int (length xs) \<le> k \<Longrightarrow> slice_to k xs = xs"
  by (simp add: slice_to_def)

lemma length_slice_to: "0 \<le> k \<Longrightarrow> int (length (slice_to k xs)) \<le> k"
  by (simp add: slice_to_def)

lemma doc_of_scored_matches: "map doc_of (scored_matches q rag) = matching q rag"
proof -
  have "doc_of \<circ> result_at q = snd"
    by (auto simp: doc_of_def result_at_def fun_eq_iff)
  then show ?thesis by (simp add: scored_matches_def)
qed

lemma length_scored_matches: "length (scored_matches q rag) = length (matching q rag)"
  by (simp add: scored_matches_def)

lemma score_scored_matches:
  "r \<in> set (scored_matches q rag) \<Longrightarrow> similarity_score r = jaccard q (doc_text r)"
  by (auto simp: scored_matches_def result_at_def)

lemma sorted_desc:
  "sorted_wrt (\<lambda>a b. similarity_score b \<le> similarity_score a)
     (sort_key (\<lambda>x. - similarity_score x) xs)"
proof -
  have "sorted (map (\<lambda>x. - similarity_score x) (sort_key (\<lambda>x. - similarity_score x) xs))"
    by (rule sorted_sort_key)
  then show ?thesis by (simp add: sorted_wrt_map)
qed

lemma stable_desc:
  "filter (\<lambda>r. similarity_score r = s) (sort_key (\<lambda>x. - similarity_score x) xs)
     = filter (\<lambda>r. similarity_score r = s) xs"
proof -
  have "(\<lambda>r::RetrievalResult. similarity_score r = s) = (\<lambda>r. - similarity_score r = - s)"
    by auto
  then show ?thesis
    using sort_key_stable [of "\<lambda>x. - similarity_score x" "- s" xs] by simp
qed

lemma ties_scored_matches:
  "map doc_of (filter (\<lambda>r. similarity_score r = s) (scored_matches q rag))
     = filter (\<lambda>(d, m). jaccard q d = s) (matching q rag)"
proof -
  have "filter (\<lambda>r. similarity_score r = s) (scored_matches q rag)
      = filter (\<lambda>r. jaccard q (doc_text r) = s) (scored_matches q rag)"
    by (rule filter_cong) (simp_all add: score_scored_matches)
  also have "map doc_of \<dots> = filter (\<lambda>(d, m). jaccard q d = s) (map doc_of (scored_matches q rag))"
    by (simp add: filter_map comp_def doc_of_def)
  finally show ?thesis by (simp add: doc_of_scored_matches)
qed

lemma join_empty_iff: "join sep ps = [] \<longleftrightarrow> (\<forall>p \<in> set ps. p = []) \<and> (sep = [] \<or> length ps \<le> 1)"
  by (induction sep ps rule: join.induct) auto

lemma indexed_two_docs: "indexed two_docs"
  by (simp add: indexed_def two_docs_def)

text \<open>
  C10. \<^verbatim>\<open>retrieve_context\<close> never divides by zero, whatever the store holds and whatever
  the query is: the division runs under the guard \<^verbatim>\<open>overlap > 0\<close>, and a non-empty
  intersection of two word sets makes their union non-empty, so the division returns the
  Jaccard ratio. On a store with one metadata entry per document the call returns a
  result list.
\<close>

theorem retrieve_context_total:
  "retrieve_context rag q k \<noteq> Inl ZeroDivisionError
   \<and> (indexed rag \<longrightarrow> (\<exists>out. retrieve_context rag q k = Inr out))
   \<and> (0 < card (word_set q \<inter> word_set d) \<longrightarrow>
        card (word_set q \<union> word_set d) \<noteq> 0
        \<and> py_div (card (word_set q \<inter> word_set d)) (card (word_set q \<union> word_set d))
            = Inr (jaccard q d))"
proof (intro conjI impI)
  have "score_docs (word_set q) (metadata_list rag) 0 (documents rag) [] \<noteq> Inl ZeroDivisionError"
    by (rule score_docs_no_zero_division) (rule finite_word_set)
  then show "retrieve_context rag q k \<noteq> Inl ZeroDivisionError"
    by (auto simp: retrieve_context_def split: sum.splits)
next
  assume "indexed rag"
  then show "\<exists>out. retrieve_context rag q k = Inr out"
    by (simp add: retrieve_context_indexed)
next
  assume pos: "0 < card (word_set q \<inter> word_set d)"
  then have "word_set q \<inter> word_set d \<noteq> {}"
    by (simp add: overlap_pos_iff finite_word_set)
  then show "card (word_set q \<union> word_set d) \<noteq> 0"
    by (intro union_card_pos finite_word_set)
  from pos show "py_div (card (word_set q \<inter> word_set d)) (card (word_set q \<union> word_set d))
      = Inr (jaccard q d)"
    unfolding jaccard_def by (intro py_div_guarded finite_word_set)
qed

theorem retrieve_context_total_witness:
  "retrieve_context two_docs ''pump'' 3 \<noteq> Inl ZeroDivisionError
   \<and> (\<exists>out. retrieve_context two_docs ''pump'' 3 = Inr out)
   \<and> py_div (card (word_set ''pump'' \<inter> word_set ''Pump''))
             (card (word_set ''pump'' \<union> word_set ''Pump'')) = Inr 1
   \<and> retrieve_context two_docs '''' 3 = Inr []"
proof -
  have pos: "0 < card (word_set ''pump'' \<inter> word_set ''Pump'')"
    by code_simp
  have jac: "jaccard ''pump'' ''Pump'' = 1"
    by code_simp
  have empty: "retrieve_context two_docs '''' 3 = Inr []"
    by code_simp
  from retrieve_context_total [of two_docs "''pump''" 3 "''Pump''"] indexed_two_docs pos jac empty
  show ?thesis by simp
qed

lemma rank_is_position_among_matches:
  assumes "r \<in> set (scored_matches q rag)"
  shows "0 < rank r \<and> rank r \<le> length (matching q rag)
         \<and> matching q rag ! (rank r - 1) = doc_of r"
proof -
  from assms obtain n d m where nd: "(n, d, m) \<in> set (enumerate 0 (matching q rag))"
    and r: "r = result_at q (n, d, m)"
    by (auto simp: scored_matches_def)
  from nd have "n < length (matching q rag)" and "matching q rag ! n = (d, m)"
    by (simp_all add: in_set_enumerate_eq)
  with r show ?thesis
    by (simp add: result_at_def doc_of_def)
qed

text \<open>
  C2. The rank is computed inside the loop, before the sort (line 393), so it is the
  position of the document among the matching ones in document order and not the
  position in the returned list. With the documents \<^verbatim>\<open>pump seal leak\<close> and \<^verbatim>\<open>Pump\<close> and
  the query \<^verbatim>\<open>pump\<close>, the first result returned carries rank 2 and the second rank 1.
\<close>

theorem rank_assigned_before_sort:
  "retrieve_context two_docs ''pump'' 3
     = Inr [\<lparr>doc_text = ''Pump'',
              metadata = \<lparr>filename = ''b.txt'', source = ''kb/b.txt''\<rparr>,
              similarity_score = 1, rank = 2\<rparr>,
            \<lparr>doc_text = ''pump seal leak'',
              metadata = \<lparr>filename = ''a.txt'', source = ''kb/a.txt''\<rparr>,
              similarity_score = 1 / 3, rank = 1\<rparr>]"
  by code_simp

text \<open>
  C4, as stated, fails: a document that shares a word with the query is left out when
  more than \<open>k\<close> documents match. With \<open>k = 1\<close> the document \<^verbatim>\<open>pump seal leak\<close>
  shares the word \<^verbatim>\<open>pump\<close> with the query and is not returned.
\<close>

theorem top_k_drops_matching_document:
  "retrieve_context two_docs ''pump'' 1
     = Inr [\<lparr>doc_text = ''Pump'',
              metadata = \<lparr>filename = ''b.txt'', source = ''kb/b.txt''\<rparr>,
              similarity_score = 1, rank = 2\<rparr>]
   \<and> documents two_docs ! 0 = ''pump seal leak''
   \<and> ''pump'' \<in> word_set ''pump'' \<inter> word_set ''pump seal leak''"
  by code_simp

text \<open>
  C4, amended. Every result returned is an indexed document whose word set meets the
  one of the query, and its score is the size of the intersection over the size of the
  union. When \<open>k\<close> is at least the number of such documents, the results are exactly
  these documents. For \<open>k \<ge> 0\<close> the results are the first \<open>k\<close> entries, or all
  if there are fewer, of the results for the matching documents sorted by descending
  score, equal scores in document order. A query without words yields no result.
\<close>

theorem retrieve_context_matches:
  assumes "indexed rag"
  shows "\<exists>out. retrieve_context rag q k = Inr out
     \<and> doc_of ` set out \<subseteq> set (matching q rag)
     \<and> (int (length (matching q rag)) \<le> k \<longrightarrow> doc_of ` set out = set (matching q rag))
     \<and> (\<forall>r \<in> set out. similarity_score r = jaccard q (doc_text r))
     \<and> (word_set q = {} \<longrightarrow> out = [])
     \<and> out = slice_to k (sort_key (\<lambda>x. - similarity_score x) (scored_matches q rag))
     \<and> (0 \<le> k \<longrightarrow>
          out = take (nat k) (sort_key (\<lambda>x. - similarity_score x) (scored_matches q rag))
          \<and> length out = min (nat k) (length (matching q rag)))"
proof -
  let ?S = "scored_matches q rag"
  let ?out = "slice_to k (sort_key (\<lambda>x. - similarity_score x) ?S)"
  have ret: "retrieve_context rag q k = Inr ?out"
    by (rule retrieve_context_indexed [OF assms])
  have 5: "?out = take (nat k) (sort_key (\<lambda>x. - similarity_score x) ?S)
           \<and> length ?out = min (nat k) (length (matching q rag))" if "0 \<le> k"
    using that by (simp add: slice_to_def length_scored_matches min.commute)
  obtain n where n: "?out = take n (sort_key (\<lambda>x. - similarity_score x) ?S)"
    using slice_to_take by blast
  have sub: "set ?out \<subseteq> set ?S"
    unfolding n using set_take_subset [of n "sort_key (\<lambda>x. - similarity_score x) ?S"] by simp
  have img: "doc_of ` set ?S = set (matching q rag)"
    using doc_of_scored_matches [of q rag] by (metis set_map)
  have 1: "doc_of ` set ?out \<subseteq> set (matching q rag)"
    using sub img by blast
  have 2: "doc_of ` set ?out = set (matching q rag)" if "int (length (matching q rag)) \<le> k"
  proof -
    from that have "?out = sort_key (\<lambda>x. - similarity_score x) ?S"
      by (intro slice_to_all) (simp add: length_scored_matches)
    then show ?thesis using img by simp
  qed
  have 3: "\<forall>r \<in> set ?out. similarity_score r = jaccard q (doc_text r)"
    using sub score_scored_matches by blast
  have 4: "?out = []" if "word_set q = {}"
  proof -
    from that have "matching q rag = []" by (simp add: matching_def)
    then have "?S = []" by (simp add: scored_matches_def)
    then show ?thesis by (simp add: slice_to_def)
  qed
  have "?out = slice_to k (sort_key (\<lambda>x. - similarity_score x) ?S)" ..
  with ret 1 2 3 4 5 show ?thesis
    by (intro exI [of _ ?out]) blast
qed

theorem retrieve_context_matches_witness:
  "\<exists>out. retrieve_context two_docs ''pump'' 2 = Inr out
     \<and> doc_of ` set out
        = {(''pump seal leak'', \<lparr>filename = ''a.txt'', source = ''kb/a.txt''\<rparr>),
           (''Pump'', \<lparr>filename = ''b.txt'', source = ''kb/b.txt''\<rparr>)}
     \<and> length out = 2"
proof -
  have m: "matching ''pump'' two_docs
      = [(''pump seal leak'', \<lparr>filename = ''a.txt'', source = ''kb/a.txt''\<rparr>),
         (''Pump'', \<lparr>filename = ''b.txt'', source = ''kb/b.txt''\<rparr>)]"
    by code_simp
  from retrieve_context_matches [OF indexed_two_docs, of "''pump''" 2]
  obtain out where ret: "retrieve_context two_docs ''pump'' 2 = Inr out"
    and all: "int (length (matching ''pump'' two_docs)) \<le> 2 \<longrightarrow>
                doc_of ` set out = set (matching ''pump'' two_docs)"
    and len: "0 \<le> (2::int) \<longrightarrow>
                length out = min (nat 2) (length (matching ''pump'' two_docs))"
    by blast
  from all m have "doc_of ` set out
      = {(''pump seal leak'', \<lparr>filename = ''a.txt'', source = ''kb/a.txt''\<rparr>),
         (''Pump'', \<lparr>filename = ''b.txt'', source = ''kb/b.txt''\<rparr>)}"
    by simp
  moreover from len m have "length out = 2"
    by simp
  ultimately show ?thesis using ret by blast
qed

text \<open>
  C5. The results are in non-increasing order of score; the results of one score are, in
  the order returned, the first of the matching documents of that score in document
  order; for \<open>k \<ge> 0\<close> there are at most \<open>k\<close> results; and there is none when no
  document shares a word with the query.
\<close>

theorem retrieve_context_sorted:
  assumes "indexed rag"
  shows "\<exists>out. retrieve_context rag q k = Inr out
     \<and> sorted_wrt (\<lambda>a b. similarity_score b \<le> similarity_score a) out
     \<and> (\<forall>s. prefix (map doc_of (filter (\<lambda>r. similarity_score r = s) out))
               (filter (\<lambda>(d, m). jaccard q d = s) (matching q rag)))
     \<and> (0 \<le> k \<longrightarrow> int (length out) \<le> k)
     \<and> ((\<forall>d \<in> set (documents rag). word_set q \<inter> word_set d = {}) \<longrightarrow> out = [])"
proof -
  let ?S = "scored_matches q rag"
  let ?T = "sort_key (\<lambda>x. - similarity_score x) ?S"
  let ?out = "slice_to k ?T"
  have ret: "retrieve_context rag q k = Inr ?out"
    by (rule retrieve_context_indexed [OF assms])
  obtain n where n: "?out = take n ?T"
    using slice_to_take by blast
  have 1: "sorted_wrt (\<lambda>a b. similarity_score b \<le> similarity_score a) ?out"
    unfolding n by (intro sorted_wrt_take sorted_desc)
  have 2: "prefix (map doc_of (filter (\<lambda>r. similarity_score r = s) ?out))
               (filter (\<lambda>(d, m). jaccard q d = s) (matching q rag))" for s
  proof -
    have "prefix (filter (\<lambda>r. similarity_score r = s) ?out) (filter (\<lambda>r. similarity_score r = s) ?T)"
      unfolding n by (intro filter_mono_prefix take_is_prefix)
    then have "prefix (filter (\<lambda>r. similarity_score r = s) ?out) (filter (\<lambda>r. similarity_score r = s) ?S)"
      by (simp only: stable_desc)
    then have "prefix (map doc_of (filter (\<lambda>r. similarity_score r = s) ?out))
                 (map doc_of (filter (\<lambda>r. similarity_score r = s) ?S))"
      by (rule map_mono_prefix)
    then show ?thesis by (simp only: ties_scored_matches)
  qed
  have 3: "int (length ?out) \<le> k" if "0 \<le> k"
    using that by (rule length_slice_to)
  have 4: "?out = []" if "\<forall>d \<in> set (documents rag). word_set q \<inter> word_set d = {}"
  proof -
    from that have "matching q rag = []"
      by (auto simp: matching_def filter_empty_conv dest: set_zip_leftD)
    then have "?S = []" by (simp add: scored_matches_def)
    then show ?thesis by (simp add: slice_to_def)
  qed
  from ret 1 2 3 4 show ?thesis by blast
qed

theorem retrieve_context_sorted_witness:
  "\<exists>out. retrieve_context two_docs ''pump'' 1 = Inr out
     \<and> sorted_wrt (\<lambda>a b. similarity_score b \<le> similarity_score a) out
     \<and> int (length out) \<le> 1"
  using retrieve_context_sorted [OF indexed_two_docs, of "''pump''" 1]
  by auto

text \<open>
  C6. \<^verbatim>\<open>get_context_string\<close> returns the blocks \<^verbatim>\<open>Source: {filename}\n{text}\<close> of the
  retrieval results, in their order, joined by the separator \<^verbatim>\<open>\n\n---\n\n\<close>; it returns
  the empty string exactly when there is no result, which is the case for an empty store.
\<close>

theorem get_context_string_blocks:
  "(indexed rag \<longrightarrow> (\<exists>rs. retrieve_context rag q k = Inr rs))
   \<and> (\<forall>rs. retrieve_context rag q k = Inr rs \<longrightarrow>
         get_context_string rag q k = Inr (join separator (map context_part rs))
         \<and> (get_context_string rag q k = Inr '''' \<longleftrightarrow> rs = [])
         \<and> (\<forall>r \<in> set rs. context_part r
               = ''Source: '' @ filename (metadata r) @ [CHR 0x0A] @ doc_text r))
   \<and> (documents rag = [] \<longrightarrow>
         retrieve_context rag q k = Inr [] \<and> get_context_string rag q k = Inr '''')
   \<and> separator = [CHR 0x0A, CHR 0x0A, CHR ''-'', CHR ''-'', CHR ''-'', CHR 0x0A, CHR 0x0A]"
proof (intro conjI impI allI)
  assume "indexed rag"
  then show "\<exists>rs. retrieve_context rag q k = Inr rs"
    by (simp add: retrieve_context_indexed)
next
  fix rs assume rs: "retrieve_context rag q k = Inr rs"
  then show "get_context_string rag q k = Inr (join separator (map context_part rs))"
    by (simp add: get_context_string_def)
  have "join separator (map context_part rs) = [] \<longleftrightarrow> rs = []"
    by (cases rs) (auto simp: join_empty_iff context_part_def)
  with rs show "get_context_string rag q k = Inr '''' \<longleftrightarrow> rs = []"
    by (simp add: get_context_string_def)
  show "\<forall>r \<in> set rs. context_part r = ''Source: '' @ filename (metadata r) @ [CHR 0x0A] @ doc_text r"
    by (simp add: context_part_def)
next
  assume "documents rag = []"
  then show "retrieve_context rag q k = Inr []" "get_context_string rag q k = Inr ''''"
    by (simp_all add: retrieve_context_def get_context_string_def)next
  show "separator = [CHR 0x0A, CHR 0x0A, CHR ''-'', CHR ''-'', CHR ''-'', CHR 0x0A, CHR 0x0A]"
    by (simp add: separator_def)
qed

theorem get_context_string_blocks_witness:
  "get_context_string two_docs ''pump'' 3
     = Inr (''Source: b.txt'' @ [CHR 0x0A] @ ''Pump''
            @ [CHR 0x0A, CHR 0x0A] @ ''---'' @ [CHR 0x0A, CHR 0x0A]
            @ ''Source: a.txt'' @ [CHR 0x0A] @ ''pump seal leak'')
   \<and> get_context_string two_docs ''valve'' 3 = Inr ''''
   \<and> retrieve_context two_docs ''valve'' 3 = Inr []"
proof -
  have r: "retrieve_context two_docs ''pump'' 3
     = Inr [\<lparr>doc_text = ''Pump'',
              metadata = \<lparr>filename = ''b.txt'', source = ''kb/b.txt''\<rparr>,
              similarity_score = 1, rank = 2\<rparr>,
            \<lparr>doc_text = ''pump seal leak'',
              metadata = \<lparr>filename = ''a.txt'', source = ''kb/a.txt''\<rparr>,
              similarity_score = 1 / 3, rank = 1\<rparr>]"
    by code_simp
  have v: "retrieve_context two_docs ''valve'' 3 = Inr []"
    by code_simp
  from get_context_string_blocks [of two_docs "''pump''" 3] r
  have 1: "get_context_string two_docs ''pump'' 3
     = Inr (''Source: b.txt'' @ [CHR 0x0A] @ ''Pump''
            @ [CHR 0x0A, CHR 0x0A] @ ''---'' @ [CHR 0x0A, CHR 0x0A]
            @ ''Source: a.txt'' @ [CHR 0x0A] @ ''pump seal leak'')"
    by (simp add: context_part_def separator_def)
  from get_context_string_blocks [of two_docs "''valve''" 3] v
  have 2: "get_context_string two_docs ''valve'' 3 = Inr ''''"
    by simp
  from 1 2 v show ?thesis by simp
qed

section \<open>Indexing is not atomic\<close>

lemma index_files_closed:
  "index_files fs rag
     = rag\<lparr>documents := documents rag @ map fst (loaded fs),
           metadata_list := metadata_list rag @ map snd (loaded fs)\<rparr>"
proof (induction fs arbitrary: rag)
  case Nil
  show ?case by (simp add: loaded_def map_filter_simps)
next
  case (Cons f fs)
  show ?case
    by (cases "file_read f") (simp_all add: Cons.IH loaded_def map_filter_simps)
qed

lemma index_documents_closed:
  "index_documents glob_txt rag arg
     = (snd (glob_txt (index_path rag arg)) = None,
        rag\<lparr>documents := map fst (loaded (fst (glob_txt (index_path rag arg)))),
            metadata_list := map snd (loaded (fst (glob_txt (index_path rag arg))))\<rparr>)"
  by (simp add: index_documents_def index_path_def index_files_closed Let_def
           split: option.splits)

lemma index_documents_indexed: "indexed (snd (index_documents glob_txt rag arg))"
  by (simp add: index_documents_closed indexed_def)

text \<open>
  C8, as stated, fails: the two lists are emptied before the directory is scanned, so a
  scan that raises leaves the store empty. Here the store held two documents.
\<close>

theorem index_not_atomic:
  "fst (index_documents unreadable_dir two_docs None) = False
   \<and> documents (snd (index_documents unreadable_dir two_docs None)) = []
   \<and> metadata_list (snd (index_documents unreadable_dir two_docs None)) = []
   \<and> documents two_docs = [''pump seal leak'', ''Pump'']"
  by (simp add: index_documents_def unreadable_dir_def two_docs_def)

text \<open>
  C8, amended. \<^verbatim>\<open>index_documents\<close> replaces the index in place: whatever the outcome,
  the store afterwards holds the readable files that the scan yielded, in scan order, and
  nothing of the former index. It returns \<^verbatim>\<open>False\<close> exactly when the scan raised; when
  the scan raised before yielding a file, the store is left empty.
\<close>

theorem index_documents_replaces:
  "index_documents glob_txt rag arg = (ok, rag') \<Longrightarrow>
     (ok \<longleftrightarrow> snd (glob_txt (index_path rag arg)) = None)
     \<and> documents rag' = map fst (loaded (fst (glob_txt (index_path rag arg))))
     \<and> metadata_list rag' = map snd (loaded (fst (glob_txt (index_path rag arg))))
     \<and> documents_path rag' = documents_path rag
     \<and> indexed rag'
     \<and> (fst (glob_txt (index_path rag arg)) = [] \<longrightarrow>
          documents rag' = [] \<and> metadata_list rag' = [])"
  by (auto simp: index_documents_closed indexed_def loaded_def map_filter_simps)

theorem index_documents_replaces_witness:
  "index_documents interrupted_scan two_docs None
     = (False, \<lparr>documents_path = ''kb'', documents = [''valve stuck''],
                 metadata_list = [\<lparr>filename = ''c.txt'', source = ''kb/c.txt''\<rparr>]\<rparr>)"
  using index_documents_replaces [of interrupted_scan two_docs None False
      "\<lparr>documents_path = ''kb'', documents = [''valve stuck''],
        metadata_list = [\<lparr>filename = ''c.txt'', source = ''kb/c.txt''\<rparr>]\<rparr>"]
  by (simp add: index_documents_def interrupted_scan_def two_docs_def)

section \<open>The decoder terminates\<close>

lemma scanstring_shorter: "scanstring acc s = Some (v, r) \<Longrightarrow> length r < length s"
proof (induction acc s rule: scanstring.induct)
  case (1 acc)
  then show ?case by simp
next
  case (2 acc c cs)
  show ?case
  proof (cases "c = CHR 0x22")
    case True
    with "2.prems" show ?thesis by simp
  next
    case nq: False
    show ?thesis
    proof (cases "c = CHR 0x5C")
      case False
      with nq "2.prems" "2.IH"(3) show ?thesis
        by (fastforce split: if_splits)
    next
      case True
      with nq "2.prems" obtain e cs' where cs: "cs = e # cs'"
        by (cases cs) auto
      show ?thesis
      proof (cases "e = CHR ''u''")
        case False
        with nq True cs "2.prems" obtain d where d: "unescape e = Some d"
          and sc: "scanstring (d # acc) cs' = Some (v, r)"
          by (auto split: option.splits)
        from "2.IH"(2) [OF nq True cs False d sc] cs show ?thesis by simp
      next
        case u: True
        with nq True cs "2.prems" obtain h1 h2 h3 h4 cs'' n where
          cs': "cs' = h1 # h2 # h3 # h4 # cs''" and h: "hex4 h1 h2 h3 h4 = Some n"
          and n: "n < 256" and sc: "scanstring (char_of n # acc) cs'' = Some (v, r)"
          by (auto split: list.splits option.splits if_splits)
        from "2.IH"(1) [OF nq True cs u cs'] h n sc have "length r < length cs''"
          by blast
        with cs cs' show ?thesis by simp
      qed
    qed
  qed
qed

lemma length_skip_ws: "length (skip_ws s) \<le> length s"
  by (simp add: skip_ws_def length_dropWhile_le)

lemma skip_ws_Cons_shorter: "skip_ws s = d # r \<Longrightarrow> length r < length s"
  using length_skip_ws [of s] by simp

termination parse_elems
proof (relation "measure (\<lambda>(acc, s). length s)", goal_cases)
  case 1
  show ?case by simp
next
  case (2 acc s c s1 x v s2 d s3)
  from 2 have "length s2 < length s1" by (metis scanstring_shorter)
  moreover from 2 have "length s3 < length s2" by (simp add: skip_ws_Cons_shorter)
  moreover have "length (skip_ws s3) \<le> length s3" by (rule length_skip_ws)
  ultimately show ?case using 2 by simp
qed

lemma parse_elems_shorter: "parse_elems acc s = Some (vs, r) \<Longrightarrow> length r < length s"
proof (induction acc s rule: parse_elems.induct)
  case (1 acc s)
  from "1.prems" obtain c s1 v s2 d s3 where s: "s = c # s1" and c: "c = CHR 0x22"
    and sc: "scanstring [] s1 = Some (v, s2)" and sk: "skip_ws s2 = d # s3"
    by (auto split: list.splits if_splits option.splits)
  from sc have a: "length s2 < length s1" by (rule scanstring_shorter)
  from sk have b: "length s3 < length s2" by (rule skip_ws_Cons_shorter)
  show ?case
  proof (cases "d = CHR '']''")
    case True
    with "1.prems" s c sc sk have "r = s3" by simp
    with a b s show ?thesis by simp
  next
    case False
    with "1.prems" s c sc sk have d: "d = CHR '',''"
      and rec: "parse_elems (v # acc) (skip_ws s3) = Some (vs, r)"
      by (auto split: if_splits)
    from "1.IH" [OF s _ sc refl sk False d] c rec have "length r < length (skip_ws s3)"
      by simp
    with length_skip_ws [of s3] a b s show ?thesis by simp
  qed
qed

lemma parse_array_shorter: "parse_array s = Some (vs, r) \<Longrightarrow> length r < length s"
proof -
  assume p: "parse_array s = Some (vs, r)"
  then obtain c s1 d s2 where s: "s = c # s1" and sk: "skip_ws s1 = d # s2"
    by (auto simp: parse_array_def split: list.splits if_splits)
  from sk have a: "length s2 < length s1" by (rule skip_ws_Cons_shorter)
  show ?thesis
  proof (cases "d = CHR '']''")
    case True
    with p s sk have "r = s2" by (simp add: parse_array_def split: if_splits)
    with a s show ?thesis by simp
  next
    case False
    with p s sk have "parse_elems [] (d # s2) = Some (vs, r)"
      by (simp add: parse_array_def split: if_splits)
    then have "length r < length (d # s2)" by (rule parse_elems_shorter)
    with a s show ?thesis by simp
  qed
qed

termination parse_members
proof (relation "measure (\<lambda>(acc, s). length s)", goal_cases)
  case 1
  show ?case by simp
next
  case (2 acc s c s1 x key s2 d s3 y vs s4 e s5)
  from 2 have "length s2 < length s1" by (metis scanstring_shorter)
  moreover from 2 have "length s3 < length s2" by (simp add: skip_ws_Cons_shorter)
  moreover have "length (skip_ws s3) \<le> length s3" by (rule length_skip_ws)
  moreover from 2 have "length s4 < length (skip_ws s3)" by (metis parse_array_shorter)
  moreover from 2 have "length s5 < length s4" by (simp add: skip_ws_Cons_shorter)
  moreover have "length (skip_ws s5) \<le> length s5" by (rule length_skip_ws)
  ultimately show ?case using 2 by simp
qed

section \<open>Decoding what the encoder wrote\<close>

lemma hex_value_hex_digit: "d < 16 \<Longrightarrow> hex_value (hex_digit d) = Some d"
  by (auto simp: hex_value_def hex_digit_def Let_def)

lemma hex4_byte:
  assumes "n < 256"
  shows "hex4 (CHR ''0'') (CHR ''0'') (hex_digit (n div 16)) (hex_digit (n mod 16)) = Some n"
proof -
  from assms have "n div 16 < 16" by simp
  then have a: "hex_value (hex_digit (n div 16)) = Some (n div 16)"
    by (rule hex_value_hex_digit)
  have b: "hex_value (hex_digit (n mod 16)) = Some (n mod 16)"
    by (rule hex_value_hex_digit) simp
  have z: "hex_value (CHR ''0'') = Some 0"
    by (simp add: hex_value_def)
  from a b z show ?thesis by (simp add: hex4_def)
qed

lemma scanstring_escape_char:
  "scanstring acc (escape_char c @ t) = scanstring (c # acc) t"
proof -
  consider (special) "c \<in> {CHR 0x22, CHR 0x5C, CHR 0x0A, CHR 0x0D, CHR 0x09, CHR 0x0C, CHR 0x08}"
    | (plain) "c \<notin> {CHR 0x22, CHR 0x5C, CHR 0x0A, CHR 0x0D, CHR 0x09, CHR 0x0C, CHR 0x08}"
        "32 \<le> (of_char c :: nat)" "(of_char c :: nat) \<le> 126"
    | (other) "c \<notin> {CHR 0x22, CHR 0x5C, CHR 0x0A, CHR 0x0D, CHR 0x09, CHR 0x0C, CHR 0x08}"
        "\<not> (32 \<le> (of_char c :: nat) \<and> (of_char c :: nat) \<le> 126)"
    by blast
  then show ?thesis
  proof cases
    case special
    then show ?thesis
      by (auto simp: escape_char_def unescape_def)
  next
    case plain
    then show ?thesis
      by (simp add: escape_char_def)
  next
    case other
    have "hex4 (CHR ''0'') (CHR ''0'') (hex_digit (of_char c div 16)) (hex_digit (of_char c mod 16))
        = Some (of_char c)"
      by (rule hex4_byte) simp
    with other show ?thesis
      by (simp add: escape_char_def)
  qed
qed

lemma scanstring_escaped:
  "scanstring acc (concat (map escape_char s) @ CHR 0x22 # t) = Some (rev acc @ s, t)"
  by (induction s arbitrary: acc) (simp_all add: scanstring_escape_char)

lemma encode_string_append:
  "encode_string s @ t = CHR 0x22 # concat (map escape_char s) @ CHR 0x22 # t"
  by (simp add: encode_string_def)

lemma skip_ws_newline_indent: "skip_ws (newline_indent n @ t) = skip_ws t"
proof -
  have "\<forall>c \<in> set (newline_indent n). is_json_ws c"
    by (auto simp: newline_indent_def is_json_ws_def)
  then show ?thesis
    by (simp add: skip_ws_def dropWhile_append)
qed

lemma skip_ws_no_ws: "\<not> is_json_ws c \<Longrightarrow> skip_ws (c # t) = c # t"
  by (simp add: skip_ws_def)

lemma skip_ws_quote: "skip_ws (encode_string s @ t) = encode_string s @ t"
  by (simp add: encode_string_def skip_ws_def is_json_ws_def)

lemma parse_elems_joined:
  assumes "vs \<noteq> []"
  shows "parse_elems acc
           (join ('','' @ newline_indent n) (map encode_string vs) @ newline_indent m @ '']'' @ t)
         = Some (rev acc @ vs, t)"
  using assms
proof (induction vs arbitrary: acc)
  case Nil
  then show ?case by simp
next
  case (Cons v vs)
  show ?case
  proof (cases vs)
    case Nil
    have "skip_ws (newline_indent m @ '']'' @ t) = '']'' @ t"
      by (simp add: skip_ws_newline_indent skip_ws_no_ws is_json_ws_def)
    with Nil show ?thesis
      by (simp add: encode_string_append scanstring_escaped)
  next
    case (Cons w ws)
    let ?rest = "join ('','' @ newline_indent n) (map encode_string (w # ws))
                   @ newline_indent m @ '']'' @ t"
    have a: "skip_ws ('','' @ newline_indent n @ ?rest) = '','' @ newline_indent n @ ?rest"
      by (simp add: skip_ws_no_ws is_json_ws_def)
    have b: "skip_ws (newline_indent n @ ?rest) = ?rest"
    proof -
      obtain u where "?rest = encode_string w @ u"
        by (cases ws) simp_all
      then show ?thesis
        by (simp add: skip_ws_newline_indent skip_ws_quote)
    qed
    have "parse_elems (v # acc) ?rest = Some (rev (v # acc) @ w # ws, t)"
      using Cons.IH [of "v # acc"] Cons by simp
    with a b Cons show ?thesis
      by (simp add: encode_string_append scanstring_escaped)
  qed
qed

lemma parse_array_encoded: "parse_array (encode_list n vs @ t) = Some (vs, t)"
proof (cases "vs = []")
  case True
  then show ?thesis
    by (simp add: parse_array_def encode_list_def skip_ws_no_ws is_json_ws_def)
next
  case False
  let ?body = "join ('','' @ newline_indent (n + 1)) (map encode_string vs)
                 @ newline_indent n @ '']'' @ t"
  from False obtain v ws where vs: "vs = v # ws" by (cases vs) auto
  then obtain u where body: "?body = encode_string v @ u"
    by (cases ws) simp_all
  then have sk: "skip_ws (newline_indent (n + 1) @ ?body) = ?body"
    by (simp add: skip_ws_newline_indent skip_ws_quote)
  from body obtain u' where hd: "?body = CHR 0x22 # u'"
    by (simp add: encode_string_def)
  have pe: "parse_elems [] ?body = Some (vs, t)"
    using parse_elems_joined [OF False, of "[]" "n + 1" n t] by simp
  from False sk hd pe show ?thesis
    by (simp add: parse_array_def encode_list_def)
qed

lemma parse_members_joined:
  assumes "tab \<noteq> []"
  shows "parse_members acc
           (join ('','' @ newline_indent n) (map (encode_item k) tab) @ newline_indent m @ ''}'' @ t)
         = Some (rev acc @ tab, t)"
  using assms
proof (induction tab arbitrary: acc)
  case Nil
  then show ?case by simp
next
  case (Cons row tab)
  obtain key vs where row: "row = (key, vs)" by (cases row)
  have colon: "skip_ws ('': '' @ u) = '':'' @ '' '' @ u" for u
    by (simp add: skip_ws_no_ws is_json_ws_def)
  have sp: "skip_ws ('' '' @ encode_list k vs @ u) = encode_list k vs @ u" for u
    by (simp add: skip_ws_def is_json_ws_def encode_list_def)
  show ?case
  proof (cases tab)
    case Nil
    have "skip_ws (newline_indent m @ ''}'' @ t) = ''}'' @ t"
      by (simp add: skip_ws_newline_indent skip_ws_no_ws is_json_ws_def)
    with Nil row colon sp show ?thesis
      by (simp add: encode_item_def encode_string_append scanstring_escaped parse_array_encoded)
  next
    case (Cons row' tab')
    let ?rest = "join ('','' @ newline_indent n) (map (encode_item k) (row' # tab'))
                   @ newline_indent m @ ''}'' @ t"
    have a: "skip_ws ('','' @ newline_indent n @ ?rest) = '','' @ newline_indent n @ ?rest"
      by (simp add: skip_ws_no_ws is_json_ws_def)
    have b: "skip_ws (newline_indent n @ ?rest) = ?rest"
    proof -
      obtain key' u where "?rest = encode_string key' @ u"
        by (cases row'; cases tab') (simp_all add: encode_item_def)
      then show ?thesis
        by (simp add: skip_ws_newline_indent skip_ws_quote)
    qed
    have "parse_members (row # acc) ?rest = Some (rev (row # acc) @ row' # tab', t)"
      using Cons.IH [of "row # acc"] Cons by simp
    with a b Cons row colon sp show ?thesis
      by (simp add: encode_item_def encode_string_append scanstring_escaped parse_array_encoded)
  qed
qed

lemma dict_set_new: "k \<notin> fst ` set d \<Longrightarrow> dict_set d k v = d @ [(k, v)]"
  by (induction d) auto

lemma dict_of_pairs_from:
  "distinct (map fst (d @ pairs)) \<Longrightarrow>
   foldl (\<lambda>d (k, v). dict_set d k v) d pairs = d @ pairs"
proof (induction pairs arbitrary: d)
  case Nil
  show ?case by simp
next
  case (Cons p pairs)
  obtain k v where p: "p = (k, v)" by (cases p)
  from Cons.prems p have "k \<notin> fst ` set d" by auto
  then have "dict_set d k v = d @ [(k, v)]" by (rule dict_set_new)
  moreover from Cons.prems p have "distinct (map fst ((d @ [(k, v)]) @ pairs))" by simp
  ultimately show ?case using Cons.IH [of "d @ [(k, v)]"] p by simp
qed

lemma dict_of_pairs_distinct: "distinct (map fst pairs) \<Longrightarrow> dict_of_pairs pairs = pairs"
  using dict_of_pairs_from [of "[]" pairs] by (simp add: dict_of_pairs_def)

lemma json_load_dump:
  assumes "distinct (map fst tab)"
  shows "json_load (json_dump tab) = Some tab"
proof (cases "tab = []")
  case True
  then show ?thesis
    by (simp add: json_load_def json_dump_def encode_dict_def skip_ws_def is_json_ws_def
          dict_of_pairs_def)
next
  case False
  let ?body = "join ('','' @ newline_indent 1) (map (encode_item 1) tab)
                 @ newline_indent 0 @ ''}'' @ []"
  from False obtain row rows where tab: "tab = row # rows" by (cases tab) auto
  then obtain key u where body: "?body = encode_string key @ u"
    by (cases row; cases rows) (simp_all add: encode_item_def)
  then have sk: "skip_ws (newline_indent 1 @ ?body) = ?body"
    by (simp add: skip_ws_newline_indent skip_ws_quote)
  from body obtain u' where hd: "?body = CHR 0x22 # u'"
    by (simp add: encode_string_def)
  have pm: "parse_members [] ?body = Some (tab, [])"
    using parse_members_joined [OF False, of "[]" 1 1 0 "[]"] by simp
  have dump: "json_dump tab = ''{'' @ newline_indent 1 @ ?body"
    using False by (simp add: json_dump_def encode_dict_def)
  have "skip_ws (json_dump tab) = ''{'' @ newline_indent 1 @ ?body"
    unfolding dump by (simp add: skip_ws_no_ws is_json_ws_def)
  with sk hd pm show ?thesis
    by (simp add: json_load_def dict_of_pairs_distinct [OF assms] skip_ws_def)
qed

section \<open>Saving and loading the intent table\<close>

lemma dirname_empty_iff: "dirname p = [] \<longleftrightarrow> CHR ''/'' \<notin> set p"
proof -
  let ?head = "rev (dropWhile (\<lambda>c. c \<noteq> CHR ''/'') (rev p))"
  have head: "?head = [] \<longleftrightarrow> CHR ''/'' \<notin> set p"
    by (auto simp: dropWhile_eq_Nil_conv)
  have "rev (dropWhile (\<lambda>c. c = CHR ''/'') (rev ?head)) \<noteq> []"
    if "\<not> list_all (\<lambda>c. c = CHR ''/'') ?head"
    using that by (auto simp: dropWhile_eq_Nil_conv list_all_iff)
  with head show ?thesis
    by (auto simp: dirname_def Let_def)
qed

lemma json_dump_example:
  "json_dump [(''greeting'', [''hello'', ''hi'']), (''none'', [])]
     = ''{'' @ [CHR 0x0A]
       @ ''  '' @ [CHR 0x22] @ ''greeting'' @ [CHR 0x22] @ '': ['' @ [CHR 0x0A]
       @ ''    '' @ [CHR 0x22] @ ''hello'' @ [CHR 0x22] @ '','' @ [CHR 0x0A]
       @ ''    '' @ [CHR 0x22] @ ''hi'' @ [CHR 0x22] @ [CHR 0x0A]
       @ ''  ],'' @ [CHR 0x0A]
       @ ''  '' @ [CHR 0x22] @ ''none'' @ [CHR 0x22] @ '': []'' @ [CHR 0x0A]
       @ ''}''"
  by code_simp

lemma save_model_without_directory:
  "CHR ''/'' \<notin> set (model_path self) \<Longrightarrow> save_model dumps disk self = disk"
  by (simp add: save_model_def dirname_empty_iff)

text \<open>
  Where the save goes through, the value saved is the value loaded: the model path has
  a directory part, the disk lets the file be written, and the \<^verbatim>\<open>json\<close> module reads
  back what it wrote.
\<close>

lemma save_then_load:
  assumes "dirname (model_path self) \<noteq> []"
    and "writable disk (model_path self)"
    and "model_path other = model_path self"
    and "loads (dumps (intent_keywords self)) = Inr (intent_keywords self)"
  shows "load_or_create_model dumps loads (save_model dumps disk self) other
           = (save_model dumps disk self, other\<lparr>intent_keywords := intent_keywords self\<rparr>)"
proof -
  from assms(1,2) have "files (save_model dumps disk self) (model_path self)
      = Some (dumps (intent_keywords self))"
    by (simp add: save_model_def)
  with assms(3,4) show ?thesis
    by (simp add: load_or_create_model_def)
qed

text \<open>
  Python's \<^verbatim>\<open>json\<close> module reads back the table it wrote: a module that writes
  \<^const>\<open>json_dump\<close> for a table and returns the table that \<^const>\<open>json_load\<close> reads
  satisfies the last hypothesis of \<open>save_then_load\<close> for every table with distinct
  keys, which the keys of a dict are.
\<close>

lemma json_reads_back_table:
  assumes "dumps (Table tab) = json_dump tab"
    and "\<And>s t. json_load s = Some t \<Longrightarrow> loads s = Inr (Table t)"
    and "distinct (map fst tab)"
  shows "loads (dumps (Table tab)) = Inr (Table tab)"
  using assms(2) [OF json_load_dump [OF assms(3)]] assms(1) by simp

text \<open>
  C7. The round trip fails for a model path without a directory part, such as
  \<^verbatim>\<open>k.json\<close>: \<^verbatim>\<open>os.path.dirname\<close> is empty, \<^verbatim>\<open>os.makedirs('')\<close> raises, the handler of
  \<^verbatim>\<open>save_model\<close> logs the exception, and no file is written although the disk would
  take it. The load that follows finds no file and returns the default table, whatever
  the \<^verbatim>\<open>json\<close> module does.
\<close>

theorem save_without_directory_is_lost:
  "save_model dumps blank_disk
       \<lparr>model_path = ''k.json'', intent_keywords = Table [(''greeting'', [''hello''])]\<rparr>
     = blank_disk
   \<and> load_or_create_model dumps loads
         (save_model dumps blank_disk
            \<lparr>model_path = ''k.json'', intent_keywords = Table [(''greeting'', [''hello''])]\<rparr>)
         \<lparr>model_path = ''k.json'', intent_keywords = Table []\<rparr>
       = (blank_disk, \<lparr>model_path = ''k.json'', intent_keywords = Table default_keywords\<rparr>)
   \<and> Table default_keywords \<noteq> Table [(''greeting'', [''hello''])]
   \<and> writable blank_disk ''k.json''"
  by (simp add: save_model_def load_or_create_model_def create_default_model_def
        dirname_empty_iff blank_disk_def default_keywords_def)

end
